theory Spec2Isabelle
  imports Main "HOL-Library.Finite_Map"
begin

section \<open>JavaScript values\<close>

text \<open>
  Message payloads, bot tokens, the arguments of the deletion operations and the
  bodies of HTTP replies are arbitrary JavaScript values. Objects are finite maps from
  property names to values and arrays are lists, so equality of two \<open>jsval\<close>s is
  structural equality (what \<open>ramda.equals\<close> computes on JSON data). Numbers are taken as unbounded integers: JavaScript numbers are IEEE
  doubles, whose arithmetic is exact on integers of magnitude below \<open>2^53\<close>; the two
  identity counters start at 1 and grow by one per append, and timestamps are
  milliseconds, so every number the server computes stays in that range.
\<close>

datatype jsval =
    JUndefined
  | JNull
  | JBool bool
  | JNum int
  | JStr string
  | JArr "jsval list"
  | JObj "(string, jsval) fmap"

datatype error =
    AssertionError string
  | TypeError
  | Error string

text \<open>
  Property read \<open>v.k\<close>: a \<open>TypeError\<close> on \<open>undefined\<close> and \<open>null\<close>, the stored value
  or \<open>undefined\<close> on an object, the \<open>length\<close> of an array or a string, and
  \<open>undefined\<close> otherwise (the only names read are \<open>botToken\<close>, \<open>chat\<close>, \<open>id\<close>,
  \<open>date\<close>, \<open>result\<close> and \<open>length\<close>; no prototype defines the first five).
\<close>

fun get_prop :: "jsval \<Rightarrow> string \<Rightarrow> error + jsval" where
  "get_prop JUndefined k = Inl TypeError"
| "get_prop JNull k = Inl TypeError"
| "get_prop (JObj m) k = Inr (case fmlookup m k of None \<Rightarrow> JUndefined | Some v \<Rightarrow> v)"
| "get_prop (JArr xs) k = Inr (if k = ''length'' then JNum (int (length xs)) else JUndefined)"
| "get_prop (JStr s) k = Inr (if k = ''length'' then JNum (int (length s)) else JUndefined)"
| "get_prop v k = Inr JUndefined"

text \<open>Truthiness, as \<open>assert.ok\<close> and \<open>if\<close> test it.\<close>

fun truthy :: "jsval \<Rightarrow> bool" where
  "truthy JUndefined = False"
| "truthy JNull = False"
| "truthy (JBool b) = b"
| "truthy (JNum n) = (n \<noteq> 0)"
| "truthy (JStr s) = (s \<noteq> [])"
| "truthy (JArr xs) = True"
| "truthy (JObj m) = True"

text \<open>
  Strict equality \<open>===\<close>: by value on primitives, by reference on objects and arrays.
  Object identities are not part of the model; two objects coming from separately
  parsed request bodies are never the same reference, so objects compare unequal.
\<close>

fun strict_eq :: "jsval \<Rightarrow> jsval \<Rightarrow> bool" where
  "strict_eq (JObj a) b = False"
| "strict_eq a (JObj b) = False"
| "strict_eq (JArr a) b = False"
| "strict_eq a (JArr b) = False"
| "strict_eq a b = (a = b)"

section \<open>The server's state\<close>

text \<open>The object \<open>add\<close> that both append operations push.\<close>

record update =
  time :: int
  botToken :: jsval
  message :: jsval
  updateId :: int
  messageId :: int
  isRead :: bool

text \<open>
  The fields of \<open>TelegramServer\<close> that the store operations read and write:
  \<open>this.config.storeTimeout\<close> (milliseconds), \<open>this.updateId\<close>, \<open>this.messageId\<close>,
  the two arrays of \<open>this.storage\<close>, \<open>this.started\<close>, and whether \<open>this.server\<close> is
  defined. The \<open>RAM\<close> storage, the default, is the only one the class implements.
\<close>

record server =
  storeTimeout :: int
  this_updateId :: int
  this_messageId :: int
  userMessages :: "update list"
  botMessages :: "update list"
  started :: bool
  server_defined :: bool

text \<open>
  The constructor; its argument is \<open>config.storeTimeout\<close> in seconds, \<open>None\<close> when the
  configuration leaves it out. \<open>x || 60\<close> replaces a falsy value, here 0, by 60.
\<close>

definition constructor :: "int option \<Rightarrow> server" where
  "constructor cfg =
     \<lparr> storeTimeout = (case cfg of None \<Rightarrow> 60 | Some n \<Rightarrow> if n = 0 then 60 else n) * 1000,
       this_updateId = 1,
       this_messageId = 1,
       userMessages = [],
       botMessages = [],
       started = False,
       server_defined = False \<rparr>"

section \<open>Appending\<close>

text \<open>
  \<open>millis\<close> is the reading of the clock, \<open>new Date().getTime()\<close>. Emitting the event
  \<open>AddedBotMessage\<close> or \<open>AddedUserMessage\<close> changes no field of the state.
\<close>

definition addBotMessage :: "int \<Rightarrow> jsval \<Rightarrow> jsval \<Rightarrow> server \<Rightarrow> server" where
  "addBotMessage millis msg token s =
     (let add = \<lparr> time = millis, botToken = token, message = msg,
                  updateId = this_updateId s, messageId = this_messageId s,
                  isRead = False \<rparr>
      in s \<lparr> botMessages := botMessages s @ [add],
             this_messageId := this_messageId s + 1,
             this_updateId := this_updateId s + 1 \<rparr>)"

text \<open>
  A function that can throw returns the exception or its value, paired with the state
  at that moment.
\<close>

definition addUserMessage :: "int \<Rightarrow> jsval \<Rightarrow> server \<Rightarrow> (error + unit) \<times> server" where
  "addUserMessage millis msg s =
     (case get_prop msg ''botToken'' of
        Inl e \<Rightarrow> (Inl e, s)
      | Inr token \<Rightarrow>
          if \<not> truthy token
          then (Inl (AssertionError
                  ''The message must be of type object and must contain `botToken` field.''), s)
          else
            let add = \<lparr> time = millis, botToken = token, message = msg,
                        updateId = this_updateId s, messageId = this_messageId s,
                        isRead = False \<rparr>
            in (Inr (),
                s \<lparr> userMessages := userMessages s @ [add],
                    this_messageId := this_messageId s + 1,
                    this_updateId := this_updateId s + 1 \<rparr>))"

section \<open>Eviction\<close>

definition messageFilter :: "server \<Rightarrow> int \<Rightarrow> update \<Rightarrow> bool" where
  "messageFilter s millis u = (time u > millis - storeTimeout s)"

text \<open>
  \<open>Array.prototype.filter\<close> calls \<open>messageFilter\<close> once per element, and every call
  reads the clock anew: \<open>clock k\<close> is the \<open>k\<close>-th reading taken during the sweep.
\<close>

fun filter_clock :: "(int \<Rightarrow> 'a \<Rightarrow> bool) \<Rightarrow> (nat \<Rightarrow> int) \<Rightarrow> nat \<Rightarrow> 'a list \<Rightarrow> 'a list" where
  "filter_clock p clock k [] = []"
| "filter_clock p clock k (x # xs) =
     (if p (clock k) x then x # filter_clock p clock (Suc k) xs
      else filter_clock p clock (Suc k) xs)"

definition cleanUp :: "(nat \<Rightarrow> int) \<Rightarrow> server \<Rightarrow> server" where
  "cleanUp clock s =
     s \<lparr> userMessages := filter_clock (messageFilter s) clock 0 (userMessages s),
         botMessages :=
           filter_clock (messageFilter s) clock (length (userMessages s)) (botMessages s) \<rparr>"


section \<open>Deletion and reset\<close>

definition removeUserMessage :: "jsval \<Rightarrow> server \<Rightarrow> server" where
  "removeUserMessage uid s =
     s \<lparr> userMessages := filter (\<lambda>u. \<not> strict_eq (JNum (updateId u)) uid) (userMessages s) \<rparr>"

definition removeBotMessage :: "jsval \<Rightarrow> server \<Rightarrow> server" where
  "removeBotMessage uid s =
     s \<lparr> botMessages := filter (\<lambda>u. \<not> strict_eq (JNum (updateId u)) uid) (botMessages s) \<rparr>"

text \<open>The predicate of \<open>deleteMessage\<close>: it reads \<open>update.message.chat.id\<close> first.\<close>

definition isMessageToDelete :: "jsval \<Rightarrow> jsval \<Rightarrow> update \<Rightarrow> error + bool" where
  "isMessageToDelete chatId mid u =
     (case get_prop (message u) ''chat'' of
        Inl e \<Rightarrow> Inl e
      | Inr chat \<Rightarrow>
          (case get_prop chat ''id'' of
             Inl e \<Rightarrow> Inl e
           | Inr cid \<Rightarrow> Inr (strict_eq cid chatId \<and> strict_eq (JNum (messageId u)) mid)))"

text \<open>\<open>Array.prototype.find\<close> with a predicate that can throw.\<close>

fun find_js :: "('a \<Rightarrow> error + bool) \<Rightarrow> 'a list \<Rightarrow> error + 'a option" where
  "find_js p [] = Inr None"
| "find_js p (x # xs) =
     (case p x of
        Inl e \<Rightarrow> Inl e
      | Inr b \<Rightarrow> if b then Inr (Some x) else find_js p xs)"

definition deleteMessage :: "jsval \<Rightarrow> jsval \<Rightarrow> server \<Rightarrow> (error + bool) \<times> server" where
  "deleteMessage chatId mid s =
     (case find_js (isMessageToDelete chatId mid) (userMessages s) of
        Inl e \<Rightarrow> (Inl e, s)
      | Inr (Some userUpdate) \<Rightarrow> (Inr True, removeUserMessage (JNum (updateId userUpdate)) s)
      | Inr None \<Rightarrow>
          (case find_js (isMessageToDelete chatId mid) (botMessages s) of
             Inl e \<Rightarrow> (Inl e, s)
           | Inr (Some botUpdate) \<Rightarrow> (Inr True, removeBotMessage (JNum (updateId botUpdate)) s)
           | Inr None \<Rightarrow> (Inr False, s)))"

definition close :: "server \<Rightarrow> server" where
  "close s = s \<lparr> userMessages := [], botMessages := [] \<rparr>"



section \<open>History\<close>

text \<open>
  \<open>ramda.prop(k)\<close> on a stored record: the object \<open>add\<close> has exactly the six
  properties written by the append operations, and every other name reads as
  \<open>undefined\<close>.
\<close>

definition prop_update :: "string \<Rightarrow> update \<Rightarrow> jsval" where
  "prop_update k u =
     (if k = ''time'' then JNum (time u)
      else if k = ''botToken'' then botToken u
      else if k = ''message'' then message u
      else if k = ''updateId'' then JNum (updateId u)
      else if k = ''messageId'' then JNum (messageId u)
      else if k = ''isRead'' then JBool (isRead u)
      else JUndefined)"

text \<open>
  The relational operator \<open><\<close>. A comparison with \<open>undefined\<close> is false
  (\<open>undefined\<close> converts to \<open>NaN\<close>); two strings compare by their character codes;
  \<open>null\<close>, booleans and numbers compare as numbers. The remaining combinations need the
  conversion of a string or an object to a number, which the model leaves out: there
  the answer is \<open>None\<close>.
\<close>

fun to_number :: "jsval \<Rightarrow> int option" where
  "to_number JNull = Some 0"
| "to_number (JBool b) = Some (if b then 1 else 0)"
| "to_number (JNum n) = Some n"
| "to_number v = None"

fun js_lt :: "jsval \<Rightarrow> jsval \<Rightarrow> bool option" where
  "js_lt JUndefined b = Some False"
| "js_lt a JUndefined = Some False"
| "js_lt (JStr x) (JStr y) = Some (lexordp (<) (map of_char x :: nat list) (map of_char y))"
| "js_lt a b =
     (case (to_number a, to_number b) of
        (Some x, Some y) \<Rightarrow> Some (x < y)
      | _ \<Rightarrow> None)"

text \<open>
  \<open>ramda.sortBy(fn)\<close> copies the list and sorts the copy with the comparator
  \<open>aa < bb ? -1 : aa > bb ? 1 : 0\<close> on the keys. \<open>Array.prototype.sort\<close> is a stable
  sort (since ECMAScript 2019; before that, V8 was stable on arrays of at most ten
  elements); it is written here as an insertion sort. The result is \<open>None\<close> when a
  comparison is outside the model.
\<close>

definition sortBy_comparator :: "('a \<Rightarrow> jsval) \<Rightarrow> 'a \<Rightarrow> 'a \<Rightarrow> int option" where
  "sortBy_comparator fn a b =
     (case js_lt (fn a) (fn b) of
        None \<Rightarrow> None
      | Some lt \<Rightarrow>
          if lt then Some (- 1)
          else (case js_lt (fn b) (fn a) of
                  None \<Rightarrow> None
                | Some gt \<Rightarrow> if gt then Some 1 else Some 0))"

fun insert_stable :: "('a \<Rightarrow> 'a \<Rightarrow> int option) \<Rightarrow> 'a \<Rightarrow> 'a list \<Rightarrow> 'a list option" where
  "insert_stable cmp x [] = Some [x]"
| "insert_stable cmp x (y # ys) =
     (case cmp x y of
        None \<Rightarrow> None
      | Some r \<Rightarrow>
          if r \<le> 0 then Some (x # y # ys)
          else map_option ((#) y) (insert_stable cmp x ys))"

fun sort_stable :: "('a \<Rightarrow> 'a \<Rightarrow> int option) \<Rightarrow> 'a list \<Rightarrow> 'a list option" where
  "sort_stable cmp [] = Some []"
| "sort_stable cmp (x # xs) =
     (case sort_stable cmp xs of
        None \<Rightarrow> None
      | Some ys \<Rightarrow> insert_stable cmp x ys)"

definition sortBy :: "('a \<Rightarrow> jsval) \<Rightarrow> 'a list \<Rightarrow> 'a list option" where
  "sortBy fn xs = sort_stable (sortBy_comparator fn) xs"

definition getUpdateDate :: "update \<Rightarrow> jsval" where
  "getUpdateDate = prop_update ''date''"

text \<open>\<open>ramda.propEq('botToken', token)\<close>: \<open>ramda.equals\<close> of the token and the property.\<close>

definition isOwnUpdate :: "jsval \<Rightarrow> update \<Rightarrow> bool" where
  "isOwnUpdate token u = (token = prop_update ''botToken'' u)"

definition getUpdatesHistory :: "jsval \<Rightarrow> server \<Rightarrow> update list option" where
  "getUpdatesHistory token s =
     sortBy getUpdateDate (filter (isOwnUpdate token) (botMessages s @ userMessages s))"

text \<open>The \<open>date\<close> that a payload carries, \<open>update.message.date\<close>.\<close>

definition payload_date :: "update \<Rightarrow> error + jsval" where
  "payload_date u = get_prop (message u) ''date''"

section \<open>Runs of the store\<close>

text \<open>
  The calls that reach the store, each with the clock readings it takes. A call that
  throws leaves the state as it was at the throw.
\<close>

datatype event =
    AddBotMessage int jsval jsval
  | AddUserMessage int jsval
  | CleanUp "nat \<Rightarrow> int"
  | RemoveUserMessage jsval
  | RemoveBotMessage jsval
  | DeleteMessage jsval jsval
  | GetUpdatesHistory jsval
  | Close

fun exec :: "event \<Rightarrow> server \<Rightarrow> server" where
  "exec (AddBotMessage millis msg token) s = addBotMessage millis msg token s"
| "exec (AddUserMessage millis msg) s = snd (addUserMessage millis msg s)"
| "exec (CleanUp clock) s = cleanUp clock s"
| "exec (RemoveUserMessage uid) s = removeUserMessage uid s"
| "exec (RemoveBotMessage uid) s = removeBotMessage uid s"
| "exec (DeleteMessage chatId mid) s = snd (deleteMessage chatId mid s)"
| "exec (GetUpdatesHistory token) s = s"
| "exec Close s = close s"

text \<open>The record that a call pushes, if it pushes one: the last of its log afterwards.\<close>

fun appended :: "event \<Rightarrow> server \<Rightarrow> update list" where
  "appended (AddBotMessage millis msg token) s =
     [last (botMessages (addBotMessage millis msg token s))]"
| "appended (AddUserMessage millis msg) s =
     (case addUserMessage millis msg s of
        (Inl e, s') \<Rightarrow> []
      | (Inr v, s') \<Rightarrow> [last (userMessages s')])"
| "appended e s = []"

fun run :: "event list \<Rightarrow> server \<Rightarrow> server" where
  "run [] s = s"
| "run (e # es) s = run es (exec e s)"

text \<open>All records pushed during a run, in the order of the calls.\<close>

fun issued :: "event list \<Rightarrow> server \<Rightarrow> update list" where
  "issued [] s = []"
| "issued (e # es) s = appended e s @ issued es (exec e s)"

section \<open>The daemon's timer chain\<close>











section \<open>The client's long poll\<close>

text \<open>
  The fields of \<open>TelegramClient\<close> that \<open>getUpdates\<close> reads; the others (\<open>userId\<close>,
  \<open>chatId\<close>, \<open>firstName\<close>, \<open>userName\<close>, \<open>type\<close>) only shape the messages built by
  \<open>makeMessage\<close>.
\<close>

record client =
  this_url :: jsval
  this_botToken :: jsval
  this_timeout :: int
  this_interval :: int

text \<open>
  The constructor, with \<open>options.timeout\<close> and \<open>options.interval\<close> as \<open>None\<close> when the
  options leave them out. \<open>x || 1000\<close> replaces a falsy value, here 0, by 1000.
\<close>

definition TelegramClient :: "jsval \<Rightarrow> jsval \<Rightarrow> int option \<Rightarrow> int option \<Rightarrow> error + client" where
  "TelegramClient url token opt_timeout opt_interval =
     (if url = JUndefined then Inl (Error ''Please define telegram api URL'')
      else if token = JUndefined then Inl (Error ''Please define bot token'')
      else Inr \<lparr> this_url = url,
                 this_botToken = token,
                 this_timeout =
                   (case opt_timeout of None \<Rightarrow> 1000 | Some n \<Rightarrow> if n = 0 then 1000 else n),
                 this_interval =
                   (case opt_interval of None \<Rightarrow> 100 | Some n \<Rightarrow> if n = 0 then 100 else n) \<rparr>)"

text \<open>The relational operator \<open>>=\<close>, with the same scope as \<open>js_lt\<close>.\<close>

fun js_ge :: "jsval \<Rightarrow> jsval \<Rightarrow> bool option" where
  "js_ge JUndefined b = Some False"
| "js_ge a JUndefined = Some False"
| "js_ge (JStr x) (JStr y) =
     Some (\<not> lexordp (<) (map of_char x :: nat list) (map of_char y))"
| "js_ge a b =
     (case (to_number a, to_number b) of
        (Some x, Some y) \<Rightarrow> Some (x \<ge> y)
      | _ \<Rightarrow> None)"

text \<open>
  The test \<open>update.result !== undefined && update.result.length >= 1\<close> of the handler
  in \<open>getUpdates\<close>: the exception it throws, or its answer; \<open>None\<close> when the comparison
  is outside the model.
\<close>

definition has_result :: "jsval \<Rightarrow> (error + bool) option" where
  "has_result update =
     (case get_prop update ''result'' of
        Inl e \<Rightarrow> Some (Inl e)
      | Inr r \<Rightarrow>
          if r = JUndefined then Some (Inr False)
          else (case get_prop r ''length'' of
                  Inl e \<Rightarrow> Some (Inl e)
                | Inr n \<Rightarrow> map_option Inr (js_ge n (JNum 1))))"

text \<open>
  The server and the network are a script: the \<open>k\<close>-th request made is answered after
  the \<open>k\<close>-th latency (milliseconds), with a body or with a rejection of the request
  promise. A request beyond the end of the script is never answered.
\<close>

datatype reply =
    Fulfilled jsval
  | Rejected

type_synonym script = "(nat \<times> reply) list"

text \<open>
  How a promise ends: never, or at a time with a value or a failure. The failure of
  \<open>.timeout(ms, message)\<close> carries \<open>ms\<close>, which stands for the message
  \<open>did not get new updates in ${ms} ms\<close>.
\<close>

datatype failure =
    TimeoutError int
  | RequestError
  | HandlerError error

datatype outcome =
    Pending
  | Settled int "failure + jsval"

fun settles_before :: "outcome \<Rightarrow> int \<Rightarrow> bool" where
  "settles_before Pending deadline = False"
| "settles_before (Settled t r) deadline = (t < deadline)"

text \<open>A timer does not fire before it is set: a negative delay counts as none.\<close>

definition delay_ms :: "int \<Rightarrow> int" where
  "delay_ms ms = max 0 ms"

text \<open>
  \<open>p.timeout(ms, message)\<close>, called at time \<open>called\<close>: the outcome of \<open>p\<close> when \<open>p\<close>
  settles before the timer fires, otherwise the \<open>TimeoutError\<close> at that time.
\<close>

definition timeout_at :: "int \<Rightarrow> int \<Rightarrow> outcome \<Rightarrow> outcome" where
  "timeout_at called ms p =
     (if settles_before p (called + delay_ms ms) then p
      else Settled (called + delay_ms ms) (Inl (TimeoutError ms)))"

text \<open>
  \<open>getUpdates\<close>, called at time \<open>called\<close> against the rest of the script. The request
  is made at the call and \<open>.timeout\<close> is attached to the chain in the same turn; the
  handler runs when the reply arrives. Every recursive call attaches a timeout of its
  own. The result is \<open>None\<close> when a reply is outside the model of \<open>has_result\<close>.
\<close>

fun getUpdates :: "client \<Rightarrow> int \<Rightarrow> script \<Rightarrow> outcome option" where
  "getUpdates c called [] = Some (timeout_at called (this_timeout c) Pending)"
| "getUpdates c called ((latency, Rejected) # rest) =
     Some (timeout_at called (this_timeout c)
        (Settled (called + int latency) (Inl RequestError)))"
| "getUpdates c called ((latency, Fulfilled update) # rest) =
     (case has_result update of
        None \<Rightarrow> None
      | Some (Inl e) \<Rightarrow>
          Some (timeout_at called (this_timeout c)
             (Settled (called + int latency) (Inl (HandlerError e))))
      | Some (Inr found) \<Rightarrow>
          if found
          then Some (timeout_at called (this_timeout c)
                  (Settled (called + int latency) (Inr update)))
          else map_option (timeout_at called (this_timeout c))
                 (getUpdates c (called + int latency + delay_ms (this_interval c)) rest))"

text \<open>
  The retrieval as the specification words it, without a deadline: query; a non-empty
  result is returned when it arrives; after an empty one wait \<open>interval\<close> and query
  again. A rejected request or a handler that throws ends it with that failure.
\<close>

fun long_poll_spec :: "int \<Rightarrow> int \<Rightarrow> script \<Rightarrow> outcome option" where
  "long_poll_spec interval called [] = Some Pending"
| "long_poll_spec interval called ((latency, Rejected) # rest) =
     Some (Settled (called + int latency) (Inl RequestError))"
| "long_poll_spec interval called ((latency, Fulfilled update) # rest) =
     (case has_result update of
        None \<Rightarrow> None
      | Some (Inl e) \<Rightarrow> Some (Settled (called + int latency) (Inl (HandlerError e)))
      | Some (Inr found) \<Rightarrow>
          if found then Some (Settled (called + int latency) (Inr update))
          else long_poll_spec interval (called + int latency + delay_ms interval) rest)"

text \<open>The client that the constructor builds when both options are left out or are 0.\<close>

definition default_client :: client where
  "default_client =
     \<lparr> this_url = JStr ''http://localhost:9000'', this_botToken = JStr ''t'',
       this_timeout = 1000, this_interval = 100 \<rparr>"

text \<open>Replies of the server: no update, and one update.\<close>

definition empty_reply :: jsval where
  "empty_reply = JObj (fmap_of_list [(''ok'', JBool True), (''result'', JArr [])])"

definition one_update_reply :: jsval where
  "one_update_reply =
     JObj (fmap_of_list
       [(''ok'', JBool True),
        (''result'', JArr [JObj (fmap_of_list [(''updateId'', JNum 1)])])])"

text \<open>Two empty replies and then an update, each after 20 ms.\<close>

definition third_reply_script :: script where
  "third_reply_script =
     [(20, Fulfilled empty_reply), (20, Fulfilled empty_reply), (20, Fulfilled one_update_reply)]"

text \<open>Empty replies after 10 ms each, then silence.\<close>

definition empty_script :: script where
  "empty_script =
     [(10, Fulfilled empty_reply), (10, Fulfilled empty_reply), (10, Fulfilled empty_reply),
      (10, Fulfilled empty_reply), (10, Fulfilled empty_reply)]"

text \<open>A request that is rejected after 10 ms.\<close>

definition rejected_script :: script where
  "rejected_script = [(10, Rejected)]"

section \<open>Predicates on events and records\<close>

text \<open>The clock reading that an append stamps on its record.\<close>

fun append_time :: "event \<Rightarrow> int option" where
  "append_time (AddBotMessage millis msg token) = Some millis"
| "append_time (AddUserMessage millis msg) = Some millis"
| "append_time e = None"

fun nullish :: "jsval \<Rightarrow> bool" where
  "nullish JUndefined = True"
| "nullish JNull = True"
| "nullish v = False"

text \<open>
  The reads \<open>update.message.chat\<close> and \<open>.id\<close> succeed: the payload is neither
  \<open>undefined\<close> nor \<open>null\<close>, and neither is its \<open>chat\<close>.
\<close>

definition chat_readable :: "update \<Rightarrow> bool" where
  "chat_readable u =
     (case get_prop (message u) ''chat'' of
        Inl e \<Rightarrow> False
      | Inr chat \<Rightarrow> \<not> nullish chat)"

text \<open>The payload is an object whose \<open>chat\<close> is an object with an \<open>id\<close> field.\<close>

definition has_chat_with_id :: "update \<Rightarrow> bool" where
  "has_chat_with_id u =
     (case message u of
        JObj m \<Rightarrow>
          (case fmlookup m ''chat'' of
             Some (JObj c) \<Rightarrow> fmlookup c ''id'' \<noteq> None
           | _ \<Rightarrow> False)
      | _ \<Rightarrow> False)"

text \<open>The predicate of \<open>deleteMessage\<close> answers \<open>true\<close> on the record.\<close>

definition is_match :: "jsval \<Rightarrow> jsval \<Rightarrow> update \<Rightarrow> bool" where
  "is_match chatId mid u = (isMessageToDelete chatId mid u = Inr True)"

section \<open>Example stores\<close>

text \<open>
  A store in which a user-side record and a bot-side record carry the same chat id 5 and
  the same \<open>messageId\<close> 1.
\<close>

definition tie_user :: update where
  "tie_user =
     \<lparr> time = 0, botToken = JStr ''t'',
       message = JObj (fmap_of_list
         [(''botToken'', JStr ''t''), (''chat'', JObj (fmap_of_list [(''id'', JNum 5)]))]),
       updateId = 1, messageId = 1, isRead = False \<rparr>"

definition tie_bot :: update where
  "tie_bot =
     \<lparr> time = 0, botToken = JStr ''t'',
       message = JObj (fmap_of_list [(''chat'', JObj (fmap_of_list [(''id'', JNum 5)]))]),
       updateId = 2, messageId = 1, isRead = False \<rparr>"

definition tie_store :: server where
  "tie_store = (constructor None) \<lparr> userMessages := [tie_user], botMessages := [tie_bot] \<rparr>"

text \<open>
  A bot message whose payload is dated 2, then a user message whose payload is dated 1,
  both for the bot \<open>t\<close>.
\<close>

definition history_events :: "event list" where
  "history_events =
     [AddBotMessage 10 (JObj (fmap_of_list [(''date'', JNum 2), (''text'', JStr ''pong'')]))
        (JStr ''t''),
      AddUserMessage 20 (JObj (fmap_of_list
        [(''botToken'', JStr ''t''), (''date'', JNum 1), (''text'', JStr ''ping'')]))]"

text \<open>A bot message whose payload has a \<open>chat\<close> without an \<open>id\<close>.\<close>

definition chat_without_id_events :: "event list" where
  "chat_without_id_events =
     [AddBotMessage 10 (JObj (fmap_of_list [(''chat'', JObj (fmap_of_list []))])) (JStr ''t'')]"

text \<open>
  Two appends, a user message without \<open>botToken\<close>, a reset, and one more append.
\<close>

definition reset_events :: "event list" where
  "reset_events =
     [AddBotMessage 1 (JObj (fmap_of_list [(''text'', JStr ''a'')])) (JStr ''t''),
      AddUserMessage 2 (JObj (fmap_of_list [(''botToken'', JStr ''t'')])),
      AddUserMessage 3 (JObj (fmap_of_list [(''text'', JStr ''b'')])),
      Close,
      AddBotMessage 4 (JObj (fmap_of_list [(''text'', JStr ''c'')])) (JStr ''t'')]"

section \<open>The counters along a run\<close>

lemma addUserMessage_Inl: "addUserMessage millis msg s = (Inl e, s') \<Longrightarrow> s' = s"
  by (auto simp: addUserMessage_def Let_def split: sum.splits if_splits)

lemma addUserMessage_Inr:
  "addUserMessage millis msg s = (Inr v, s') \<Longrightarrow>
     \<exists>token. get_prop msg ''botToken'' = Inr token \<and> truthy token \<and>
       s' = s \<lparr> userMessages := userMessages s @
                  [\<lparr> time = millis, botToken = token, message = msg,
                     updateId = this_updateId s, messageId = this_messageId s,
                     isRead = False \<rparr>],
                this_messageId := this_messageId s + 1,
                this_updateId := this_updateId s + 1 \<rparr>"
  by (auto simp: addUserMessage_def Let_def split: sum.splits if_splits)

lemma deleteMessage_counters:
  "this_updateId (snd (deleteMessage chatId mid s)) = this_updateId s \<and>
   this_messageId (snd (deleteMessage chatId mid s)) = this_messageId s"
  by (simp add: deleteMessage_def removeUserMessage_def removeBotMessage_def
      split: sum.splits option.splits)

lemma exec_counters:
  "this_updateId (exec e s) = this_updateId s + int (length (appended e s)) \<and>
   this_messageId (exec e s) = this_messageId s + int (length (appended e s))"
proof (cases e)
  case (AddUserMessage millis msg)
  obtain r s' where r: "addUserMessage millis msg s = (r, s')"
    by (cases "addUserMessage millis msg s")
  show ?thesis
  proof (cases r)
    case (Inl err)
    with r AddUserMessage show ?thesis
      by (auto dest: addUserMessage_Inl)
  next
    case (Inr v)
    with r AddUserMessage show ?thesis
      by (auto dest!: addUserMessage_Inr)
  qed
next
  case (DeleteMessage chatId mid)
  then show ?thesis
    by (simp add: deleteMessage_counters)
qed (simp_all add: addBotMessage_def cleanUp_def removeUserMessage_def
       removeBotMessage_def close_def Let_def)

lemmas exec_updateId = exec_counters [THEN conjunct1]
lemmas exec_messageId = exec_counters [THEN conjunct2]

lemma appended_ids:
  "u \<in> set (appended e s) \<Longrightarrow> updateId u = this_updateId s \<and> messageId u = this_messageId s"
proof (cases e)
  case (AddUserMessage millis msg)
  assume u: "u \<in> set (appended e s)"
  obtain r s' where r: "addUserMessage millis msg s = (r, s')"
    by (cases "addUserMessage millis msg s")
  show ?thesis
  proof (cases r)
    case (Inl err)
    with r u AddUserMessage show ?thesis by simp
  next
    case (Inr v)
    with r u AddUserMessage show ?thesis
      by (auto dest!: addUserMessage_Inr)
  qed
qed (auto simp: addBotMessage_def Let_def)

lemma run_updateId_mono: "this_updateId s \<le> this_updateId (run es s)"
proof (induction es arbitrary: s)
  case Nil
  show ?case by simp
next
  case (Cons e es)
  have "this_updateId s \<le> this_updateId (exec e s)"
    by (simp add: exec_updateId)
  also have "\<dots> \<le> this_updateId (run es (exec e s))"
    by (rule Cons.IH)
  finally show ?case by simp
qed

lemma run_messageId_mono: "this_messageId s \<le> this_messageId (run es s)"
proof (induction es arbitrary: s)
  case Nil
  show ?case by simp
next
  case (Cons e es)
  have "this_messageId s \<le> this_messageId (exec e s)"
    by (simp add: exec_messageId)
  also have "\<dots> \<le> this_messageId (run es (exec e s))"
    by (rule Cons.IH)
  finally show ?case by simp
qed

lemma issued_updateId_bounds:
  "u \<in> set (issued es s) \<Longrightarrow>
     this_updateId s \<le> updateId u \<and> updateId u < this_updateId (run es s)"
proof (induction es arbitrary: s)
  case Nil
  then show ?case by simp
next
  case (Cons e es)
  from Cons.prems consider "u \<in> set (appended e s)" | "u \<in> set (issued es (exec e s))"
    by auto
  then show ?case
  proof cases
    case 1
    then have "updateId u = this_updateId s" and "appended e s \<noteq> []"
      using appended_ids by auto
    moreover have "this_updateId (exec e s) \<le> this_updateId (run es (exec e s))"
      by (rule run_updateId_mono)
    ultimately show ?thesis
      by (simp add: exec_updateId) (cases "appended e s", auto)
  next
    case 2
    from Cons.IH [OF 2] show ?thesis
      by (simp add: exec_updateId)
  qed
qed

lemma issued_messageId_bounds:
  "u \<in> set (issued es s) \<Longrightarrow>
     this_messageId s \<le> messageId u \<and> messageId u < this_messageId (run es s)"
proof (induction es arbitrary: s)
  case Nil
  then show ?case by simp
next
  case (Cons e es)
  from Cons.prems consider "u \<in> set (appended e s)" | "u \<in> set (issued es (exec e s))"
    by auto
  then show ?case
  proof cases
    case 1
    then have "messageId u = this_messageId s" and "appended e s \<noteq> []"
      using appended_ids by auto
    moreover have "this_messageId (exec e s) \<le> this_messageId (run es (exec e s))"
      by (rule run_messageId_mono)
    ultimately show ?thesis
      by (simp add: exec_messageId) (cases "appended e s", auto)
  next
    case 2
    from Cons.IH [OF 2] show ?thesis
      by (simp add: exec_messageId)
  qed
qed

lemma sorted_appended: "sorted_wrt R (appended e s)"
  by (cases e) (auto split: sum.splits prod.splits)

lemma issued_updateId_increasing:
  "sorted_wrt (\<lambda>a b. updateId a < updateId b) (issued es s)"
proof (induction es arbitrary: s)
  case Nil
  show ?case by simp
next
  case (Cons e es)
  have "updateId a < updateId b"
    if "a \<in> set (appended e s)" and "b \<in> set (issued es (exec e s))" for a b
  proof -
    from that(1) have "updateId a = this_updateId s" and "appended e s \<noteq> []"
      using appended_ids by auto
    moreover from that(2) have "this_updateId (exec e s) \<le> updateId b"
      using issued_updateId_bounds by blast
    ultimately show ?thesis
      by (cases "appended e s") (auto simp: exec_updateId)
  qed
  with Cons.IH show ?case
    by (auto simp: sorted_wrt_append sorted_appended)
qed

lemma issued_messageId_increasing:
  "sorted_wrt (\<lambda>a b. messageId a < messageId b) (issued es s)"
proof (induction es arbitrary: s)
  case Nil
  show ?case by simp
next
  case (Cons e es)
  have "messageId a < messageId b"
    if "a \<in> set (appended e s)" and "b \<in> set (issued es (exec e s))" for a b
  proof -
    from that(1) have "messageId a = this_messageId s" and "appended e s \<noteq> []"
      using appended_ids by auto
    moreover from that(2) have "this_messageId (exec e s) \<le> messageId b"
      using issued_messageId_bounds by blast
    ultimately show ?thesis
      by (cases "appended e s") (auto simp: exec_messageId)
  qed
  with Cons.IH show ?case
    by (auto simp: sorted_wrt_append sorted_appended)
qed

section \<open>The logs along a run\<close>

lemma set_filter_clock: "set (filter_clock p clock k xs) \<subseteq> set xs"
  by (induction xs arbitrary: k) auto

lemma set_deleteMessage:
  "set (userMessages (snd (deleteMessage chatId mid s))) \<subseteq> set (userMessages s) \<and>
   set (botMessages (snd (deleteMessage chatId mid s))) \<subseteq> set (botMessages s)"
  by (auto simp: deleteMessage_def removeUserMessage_def removeBotMessage_def
      split: sum.splits option.splits)

lemma exec_logs:
  "set (userMessages (exec e s)) \<union> set (botMessages (exec e s))
     \<subseteq> set (userMessages s) \<union> set (botMessages s) \<union> set (appended e s)"
proof (cases e)
  case (AddUserMessage millis msg)
  obtain r s' where r: "addUserMessage millis msg s = (r, s')"
    by (cases "addUserMessage millis msg s")
  show ?thesis
  proof (cases r)
    case (Inl err)
    with r AddUserMessage show ?thesis
      by (auto dest: addUserMessage_Inl)
  next
    case (Inr v)
    with r AddUserMessage show ?thesis
      by (auto dest!: addUserMessage_Inr)
  qed
next
  case (CleanUp clock)
  then show ?thesis
    using set_filter_clock [of "messageFilter s" clock]
    by (auto simp: cleanUp_def)
next
  case (DeleteMessage chatId mid)
  then show ?thesis
    using set_deleteMessage [of chatId mid s] by auto
qed (auto simp: addBotMessage_def removeUserMessage_def removeBotMessage_def close_def Let_def)

lemma run_logs:
  "set (userMessages (run es s)) \<union> set (botMessages (run es s))
     \<subseteq> set (userMessages s) \<union> set (botMessages s) \<union> set (issued es s)"
proof (induction es arbitrary: s)
  case Nil
  show ?case by simp
next
  case (Cons e es)
  from Cons.IH [of "exec e s"] exec_logs [of e s] show ?case
    by auto
qed

lemma issued_ids_equal:
  "this_updateId s = this_messageId s \<Longrightarrow> u \<in> set (issued es s) \<Longrightarrow>
     updateId u = messageId u"
proof (induction es arbitrary: s)
  case Nil
  then show ?case by simp
next
  case (Cons e es)
  have "this_updateId (exec e s) = this_messageId (exec e s)"
    using Cons.prems(1) by (simp add: exec_counters)
  with Cons show ?case
    by (auto dest: appended_ids)
qed

lemma run_counter_length:
  "this_updateId (run es s) = this_updateId s + int (length (issued es s)) \<and>
   this_messageId (run es s) = this_messageId s + int (length (issued es s))"
  by (induction es arbitrary: s) (simp_all add: exec_counters)

section \<open>Identities\<close>

text \<open>
  Claim C3. In every run of calls to the store, from any state, the records pushed by
  \<open>addBotMessage\<close> and \<open>addUserMessage\<close>, taken together in the order of the calls,
  carry strictly increasing \<open>updateId\<close>s and strictly increasing \<open>messageId\<close>s, so no
  identity is issued twice. The run may contain sweeps, deletions and resets: none of
  them makes an identity available again.
\<close>
theorem identities_strictly_increasing:
  "sorted_wrt (\<lambda>a b. updateId a < updateId b) (issued es s) \<and>
   sorted_wrt (\<lambda>a b. messageId a < messageId b) (issued es s) \<and>
   distinct (map updateId (issued es s)) \<and>
   distinct (map messageId (issued es s))"
proof -
  have u: "sorted_wrt (\<lambda>a b. updateId a < updateId b) (issued es s)"
    by (rule issued_updateId_increasing)
  have m: "sorted_wrt (\<lambda>a b. messageId a < messageId b) (issued es s)"
    by (rule issued_messageId_increasing)
  from u have "sorted_wrt (<) (map updateId (issued es s))"
    by (simp add: sorted_wrt_map)
  then have du: "distinct (map updateId (issued es s))"
    using strict_sorted_iff by blast
  from m have "sorted_wrt (<) (map messageId (issued es s))"
    by (simp add: sorted_wrt_map)
  then have dm: "distinct (map messageId (issued es s))"
    using strict_sorted_iff by blast
  from u m du dm show ?thesis by simp
qed

text \<open>
  Claim C4. When reading \<open>botToken\<close> from the payload gives \<open>undefined\<close> (the payload
  is an object without that field, or a primitive), \<open>addUserMessage\<close> throws the
  assertion error and the state at the throw is the state before the call: both logs
  and both counters are unchanged.
\<close>
theorem addUserMessage_without_botToken:
  "get_prop msg ''botToken'' = Inr JUndefined \<Longrightarrow>
     addUserMessage millis msg s =
       (Inl (AssertionError
          ''The message must be of type object and must contain `botToken` field.''), s)"
  by (simp add: addUserMessage_def)

theorem addUserMessage_without_botToken_witness:
  "get_prop (JObj (fmap_of_list [(''text'', JStr ''hi'')])) ''botToken'' = Inr JUndefined \<and>
   addUserMessage 5 (JObj (fmap_of_list [(''text'', JStr ''hi'')])) (constructor None) =
     (Inl (AssertionError
        ''The message must be of type object and must contain `botToken` field.''),
      constructor None)"
proof -
  have h: "get_prop (JObj (fmap_of_list [(''text'', JStr ''hi'')])) ''botToken'' = Inr JUndefined"
    by (simp add: fmlookup_of_list)
  from h addUserMessage_without_botToken [OF h, of 5 "constructor None"]
  show ?thesis by simp
qed

text \<open>
  On a payload that is \<open>undefined\<close> or \<open>null\<close> the read of \<open>botToken\<close> itself throws,
  a \<open>TypeError\<close>; the state is unchanged there too.
\<close>

lemma addUserMessage_nullish_payload:
  "nullish msg \<Longrightarrow> addUserMessage millis msg s = (Inl TypeError, s)"
  by (cases msg) (simp_all add: addUserMessage_def)

text \<open>
  Claim C7. \<open>close\<close> leaves both logs empty and both counters as they were. Hence every
  record pushed in a run that follows the reset has an \<open>updateId\<close> greater than that
  of every record pushed in the run before it.
\<close>
theorem close_keeps_counters:
  "userMessages (close s) = [] \<and> botMessages (close s) = [] \<and>
   this_updateId (close s) = this_updateId s \<and>
   this_messageId (close s) = this_messageId s \<and>
   list_all (\<lambda>a. list_all (\<lambda>u. updateId u < updateId a) (issued es s0))
     (issued es' (close (run es s0)))"
proof -
  have "updateId u < updateId a"
    if "u \<in> set (issued es s0)" and "a \<in> set (issued es' (close (run es s0)))" for u a
  proof -
    from that(1) have "updateId u < this_updateId (run es s0)"
      using issued_updateId_bounds by blast
    also have "\<dots> = this_updateId (close (run es s0))"
      by (simp add: close_def)
    also from that(2) have "\<dots> \<le> updateId a"
      using issued_updateId_bounds by blast
    finally show ?thesis .
  qed
  then show ?thesis
    by (simp add: close_def list_all_iff)
qed

text \<open>
  Claim C9. Both counters are 1 after the constructor and each has grown by exactly the
  number of records pushed; every record pushed in a run from the constructor, and
  every record found in either log after the run, has its \<open>updateId\<close> equal to its
  \<open>messageId\<close>.
\<close>
theorem updateId_equals_messageId:
  "this_updateId (constructor cfg) = 1 \<and> this_messageId (constructor cfg) = 1 \<and>
   this_updateId (run es (constructor cfg)) = 1 + int (length (issued es (constructor cfg))) \<and>
   this_messageId (run es (constructor cfg)) = 1 + int (length (issued es (constructor cfg))) \<and>
   list_all (\<lambda>u. updateId u = messageId u) (issued es (constructor cfg)) \<and>
   list_all (\<lambda>u. updateId u = messageId u)
     (userMessages (run es (constructor cfg)) @ botMessages (run es (constructor cfg)))"
proof -
  let ?s = "constructor cfg"
  have eq: "this_updateId ?s = this_messageId ?s"
    by (simp add: constructor_def)
  have i: "list_all (\<lambda>u. updateId u = messageId u) (issued es ?s)"
    using issued_ids_equal [OF eq] by (simp add: list_all_iff)
  have "set (userMessages (run es ?s)) \<union> set (botMessages (run es ?s)) \<subseteq> set (issued es ?s)"
    using run_logs [of es ?s] by (simp add: constructor_def)
  with i have l: "list_all (\<lambda>u. updateId u = messageId u)
     (userMessages (run es ?s) @ botMessages (run es ?s))"
    by (auto simp: list_all_iff)
  from i l run_counter_length [of es ?s] show ?thesis
    by (simp add: constructor_def)
qed

text \<open>
  A run across a reset: the identities issued are 1, 2 and 3, the failed append issues
  none, and the logs afterwards hold the record with identity 3 only.
\<close>

lemma reset_events_identities:
  "map updateId (issued reset_events (constructor None)) = [1, 2, 3] \<and>
   map messageId (issued reset_events (constructor None)) = [1, 2, 3] \<and>
   map updateId (botMessages (run reset_events (constructor None))) = [3] \<and>
   userMessages (run reset_events (constructor None)) = []"
  by (simp add: reset_events_def constructor_def addBotMessage_def addUserMessage_def
      close_def fmlookup_of_list)

section \<open>Sweeps\<close>

lemma filter_clock_constant:
  "(\<And>k. clock k = now) \<Longrightarrow> filter_clock p clock k xs = filter (p now) xs"
  by (induction xs arbitrary: k) auto

lemma cleanUp_constant_clock:
  assumes "\<And>k. clock k = now"
  shows "cleanUp clock s =
     s \<lparr> userMessages := filter (\<lambda>u. time u > now - storeTimeout s) (userMessages s),
         botMessages := filter (\<lambda>u. time u > now - storeTimeout s) (botMessages s) \<rparr>"
  using assms by (simp add: cleanUp_def filter_clock_constant messageFilter_def [abs_def])

lemma appended_time:
  "append_time e = Some millis \<Longrightarrow> r \<in> set (appended e s) \<Longrightarrow> time r = millis"
proof (cases e)
  case (AddUserMessage ms msg)
  assume a: "append_time e = Some millis" and u: "r \<in> set (appended e s)"
  obtain res s' where res: "addUserMessage ms msg s = (res, s')"
    by (cases "addUserMessage ms msg s")
  show ?thesis
  proof (cases res)
    case (Inl err)
    with res u AddUserMessage show ?thesis by simp
  next
    case (Inr v)
    with res u a AddUserMessage show ?thesis
      by (auto dest!: addUserMessage_Inr)
  qed
qed (auto simp: addBotMessage_def Let_def)

lemma appended_in_log:
  "r \<in> set (appended e s) \<Longrightarrow>
     (r \<in> set (userMessages (exec e s)) \<and> userMessages (exec e s) = userMessages s @ [r]
        \<and> botMessages (exec e s) = botMessages s) \<or>
     (r \<in> set (botMessages (exec e s)) \<and> botMessages (exec e s) = botMessages s @ [r]
        \<and> userMessages (exec e s) = userMessages s)"
proof (cases e)
  case (AddUserMessage ms msg)
  assume u: "r \<in> set (appended e s)"
  obtain res s' where res: "addUserMessage ms msg s = (res, s')"
    by (cases "addUserMessage ms msg s")
  show ?thesis
  proof (cases res)
    case (Inl err)
    with res u AddUserMessage show ?thesis by simp
  next
    case (Inr v)
    with res u AddUserMessage show ?thesis
      by (auto dest!: addUserMessage_Inr)
  qed
qed (auto simp: addBotMessage_def Let_def)

lemma exec_append_storeTimeout: "append_time e = Some millis \<Longrightarrow> storeTimeout (exec e s) = storeTimeout s"
proof (cases e)
  case (AddUserMessage ms msg)
  obtain res s' where res: "addUserMessage ms msg s = (res, s')"
    by (cases "addUserMessage ms msg s")
  show ?thesis
  proof (cases res)
    case (Inl err)
    with res AddUserMessage show ?thesis by (auto dest: addUserMessage_Inl)
  next
    case (Inr v)
    with res AddUserMessage show ?thesis
      by (auto dest!: addUserMessage_Inr)
  qed
qed (auto simp: addBotMessage_def Let_def)

text \<open>
  Claim C6. A sweep during which the clock reads \<open>now\<close> keeps, in the user log and in
  the bot log separately, exactly the records with \<open>time > now - storeTimeout\<close>. With
  \<open>T = storeTimeout\<close> and \<open>0 < d < T\<close>: after an append at time 0, an append at time
  \<open>T + d\<close> and a sweep at time \<open>T + 2 * d\<close>, the first record is in neither log and the
  second is still in its log.
\<close>
theorem cleanUp_retains_fresh:
  assumes clock: "\<forall>k. clock k = now"
  shows "userMessages (cleanUp clock s) =
           filter (\<lambda>u. time u > now - storeTimeout s) (userMessages s) \<and>
         botMessages (cleanUp clock s) =
           filter (\<lambda>u. time u > now - storeTimeout s) (botMessages s) \<and>
         (0 < d \<and> d < storeTimeout s \<and> now = storeTimeout s + 2 * d \<and>
          append_time e0 = Some 0 \<and> append_time e1 = Some (storeTimeout s + d) \<longrightarrow>
            list_all (\<lambda>r. r \<notin> set (userMessages (cleanUp clock (run [e0, e1] s))) \<and>
                          r \<notin> set (botMessages (cleanUp clock (run [e0, e1] s))))
              (appended e0 s) \<and>
            list_all (\<lambda>r. r \<in> set (userMessages (cleanUp clock (run [e0, e1] s))) \<or>
                          r \<in> set (botMessages (cleanUp clock (run [e0, e1] s))))
              (appended e1 (exec e0 s)))"
proof -
  from clock have c: "\<And>k. clock k = now" by simp
  note cu = cleanUp_constant_clock [OF c]
  have sweep: "userMessages (cleanUp clock s) =
           filter (\<lambda>u. time u > now - storeTimeout s) (userMessages s) \<and>
         botMessages (cleanUp clock s) =
           filter (\<lambda>u. time u > now - storeTimeout s) (botMessages s)"
    by (simp add: cu)
  have scen: "list_all (\<lambda>r. r \<notin> set (userMessages (cleanUp clock (run [e0, e1] s))) \<and>
                          r \<notin> set (botMessages (cleanUp clock (run [e0, e1] s))))
              (appended e0 s) \<and>
            list_all (\<lambda>r. r \<in> set (userMessages (cleanUp clock (run [e0, e1] s))) \<or>
                          r \<in> set (botMessages (cleanUp clock (run [e0, e1] s))))
              (appended e1 (exec e0 s))"
    if d: "0 < d" "d < storeTimeout s" "now = storeTimeout s + 2 * d"
      and e0: "append_time e0 = Some 0" and e1: "append_time e1 = Some (storeTimeout s + d)"
  proof -
    let ?s1 = "exec e0 s"
    let ?s2 = "exec e1 ?s1"
    have T: "storeTimeout ?s2 = storeTimeout s"
      using e0 e1 by (simp add: exec_append_storeTimeout)
    have old: "r \<notin> set (userMessages (cleanUp clock ?s2)) \<and>
               r \<notin> set (botMessages (cleanUp clock ?s2))"
      if "r \<in> set (appended e0 s)" for r
    proof -
      from that e0 have "time r = 0" by (rule appended_time [rotated])
      with d T show ?thesis by (simp add: cu)
    qed
    have new: "r \<in> set (userMessages (cleanUp clock ?s2)) \<or>
               r \<in> set (botMessages (cleanUp clock ?s2))"
      if "r \<in> set (appended e1 ?s1)" for r
    proof -
      from that e1 have "time r = storeTimeout s + d" by (rule appended_time [rotated])
      with d T have "time r > now - storeTimeout ?s2" by simp
      moreover from that have "r \<in> set (userMessages ?s2) \<or> r \<in> set (botMessages ?s2)"
        using appended_in_log by blast
      ultimately show ?thesis by (auto simp: cu)
    qed
    from old new show ?thesis by (simp add: list_all_iff)
  qed
  from sweep scen show ?thesis by blast
qed

theorem cleanUp_retains_fresh_witness:
  "(\<forall>k. (\<lambda>k::nat. 1002::int) k = 1002) \<and>
   appended (AddBotMessage 0 JNull (JStr ''t'')) (constructor (Some 1)) \<noteq> [] \<and>
   appended (AddUserMessage 1001 (JObj (fmap_of_list [(''botToken'', JStr ''t'')])))
     (exec (AddBotMessage 0 JNull (JStr ''t'')) (constructor (Some 1))) \<noteq> [] \<and>
   list_all (\<lambda>r. r \<notin> set (userMessages (cleanUp (\<lambda>k. 1002)
                   (run [AddBotMessage 0 JNull (JStr ''t''),
                         AddUserMessage 1001 (JObj (fmap_of_list [(''botToken'', JStr ''t'')]))]
                      (constructor (Some 1))))) \<and>
                 r \<notin> set (botMessages (cleanUp (\<lambda>k. 1002)
                   (run [AddBotMessage 0 JNull (JStr ''t''),
                         AddUserMessage 1001 (JObj (fmap_of_list [(''botToken'', JStr ''t'')]))]
                      (constructor (Some 1))))))
     (appended (AddBotMessage 0 JNull (JStr ''t'')) (constructor (Some 1))) \<and>
   list_all (\<lambda>r. r \<in> set (userMessages (cleanUp (\<lambda>k. 1002)
                   (run [AddBotMessage 0 JNull (JStr ''t''),
                         AddUserMessage 1001 (JObj (fmap_of_list [(''botToken'', JStr ''t'')]))]
                      (constructor (Some 1))))) \<or>
                 r \<in> set (botMessages (cleanUp (\<lambda>k. 1002)
                   (run [AddBotMessage 0 JNull (JStr ''t''),
                         AddUserMessage 1001 (JObj (fmap_of_list [(''botToken'', JStr ''t'')]))]
                      (constructor (Some 1))))))
     (appended (AddUserMessage 1001 (JObj (fmap_of_list [(''botToken'', JStr ''t'')])))
        (exec (AddBotMessage 0 JNull (JStr ''t'')) (constructor (Some 1))))"
proof -
  let ?s = "constructor (Some 1)"
  let ?e0 = "AddBotMessage 0 JNull (JStr ''t'')"
  let ?e1 = "AddUserMessage 1001 (JObj (fmap_of_list [(''botToken'', JStr ''t'')]))"
  have h: "\<forall>k. (\<lambda>k::nat. 1002::int) k = 1002" by simp
  have pre: "0 < (1::int) \<and> 1 < storeTimeout ?s \<and> (1002::int) = storeTimeout ?s + 2 * 1 \<and>
      append_time ?e0 = Some 0 \<and> append_time ?e1 = Some (storeTimeout ?s + 1)"
    by (simp add: constructor_def)
  have ne: "appended ?e0 ?s \<noteq> [] \<and> appended ?e1 (exec ?e0 ?s) \<noteq> []"
    by (simp add: addUserMessage_def fmlookup_of_list)
  from cleanUp_retains_fresh [OF h, of ?s 1 ?e0 ?e1] pre ne h show ?thesis
    by blast
qed

section \<open>Deleting a message\<close>

lemma get_prop_Inl: "(get_prop v k = Inl e) = (nullish v \<and> e = TypeError)"
  by (cases v) auto

lemma get_prop_nullish: "nullish v \<Longrightarrow> get_prop v k = Inl TypeError"
  by (cases v) auto

lemma isMessageToDelete_cases:
  "isMessageToDelete chatId mid u =
     (if chat_readable u then Inr (is_match chatId mid u) else Inl TypeError)"
proof (cases "get_prop (message u) ''chat''")
  case (Inl e)
  then have "e = TypeError"
    by (simp add: get_prop_Inl)
  with Inl show ?thesis
    by (simp add: isMessageToDelete_def chat_readable_def)
next
  case chat: (Inr chat)
  show ?thesis
  proof (cases "get_prop chat ''id''")
    case (Inl e)
    then have "e = TypeError" and "nullish chat"
      by (simp_all add: get_prop_Inl)
    with chat Inl show ?thesis
      by (simp add: isMessageToDelete_def chat_readable_def)
  next
    case (Inr cid)
    then have "\<not> nullish chat"
      using get_prop_nullish [of chat "''id''"] by auto
    with chat Inr show ?thesis
      by (simp add: isMessageToDelete_def chat_readable_def is_match_def)
  qed
qed

lemma isMessageToDelete_readable:
  "chat_readable u \<Longrightarrow> isMessageToDelete chatId mid u = Inr (is_match chatId mid u)"
  by (simp add: isMessageToDelete_cases)

lemma isMessageToDelete_unreadable:
  "\<not> chat_readable u \<Longrightarrow> isMessageToDelete chatId mid u = Inl TypeError"
  by (simp add: isMessageToDelete_cases)

lemma has_chat_with_id_readable:
  assumes "has_chat_with_id u"
  shows "chat_readable u"
proof -
  from assms obtain m where m: "message u = JObj m"
    by (cases "message u") (simp_all add: has_chat_with_id_def)
  with assms obtain v where v: "fmlookup m ''chat'' = Some v"
    by (cases "fmlookup m ''chat''") (simp_all add: has_chat_with_id_def)
  with assms m have "\<not> nullish v"
    by (cases v) (simp_all add: has_chat_with_id_def)
  with m v show ?thesis
    by (simp add: chat_readable_def)
qed

lemma find_js_total:
  "list_all (\<lambda>x. p x = Inr (q x)) xs \<Longrightarrow> find_js p xs = Inr (find q xs)"
  by (induction xs) auto

lemma find_js_no_match:
  "list_all (\<lambda>x. p x \<noteq> Inr True) xs \<Longrightarrow>
     (list_all (\<lambda>x. p x = Inr False) xs \<and> find_js p xs = Inr None) \<or>
     (\<exists>e. find_js p xs = Inl e)"
  by (induction xs) (auto split: sum.splits)

lemma find_filter: "find q xs = (case filter q xs of [] \<Rightarrow> None | x # ys \<Rightarrow> Some x)"
  by (induction xs) auto

lemma find_js_readable:
  "list_all chat_readable xs \<Longrightarrow>
     find_js (isMessageToDelete chatId mid) xs = Inr (find (is_match chatId mid) xs)"
  by (rule find_js_total) (simp add: list_all_iff isMessageToDelete_readable)

lemma deleteMessage_total_readable:
  "(\<forall>chatId mid. \<exists>b. fst (deleteMessage chatId mid s) = Inr b) =
     list_all chat_readable (userMessages s @ botMessages s)"
proof
  assume total: "\<forall>chatId mid. \<exists>b. fst (deleteMessage chatId mid s) = Inr b"
  let ?p = "isMessageToDelete JUndefined JUndefined"
  have never: "?p x \<noteq> Inr True" for x
    by (auto simp: isMessageToDelete_def split: sum.splits)
  from total obtain b where b: "fst (deleteMessage JUndefined JUndefined s) = Inr b"
    by blast
  have nm: "list_all (\<lambda>x. ?p x \<noteq> Inr True) xs" for xs
    by (simp add: list_all_iff never)
  have user: "list_all (\<lambda>x. ?p x = Inr False) (userMessages s) \<and>
      find_js ?p (userMessages s) = Inr None"
    using find_js_no_match [OF nm, of "userMessages s"] b
    by (auto simp: deleteMessage_def)
  have bot: "list_all (\<lambda>x. ?p x = Inr False) (botMessages s)"
    using find_js_no_match [OF nm, of "botMessages s"] b user
    by (auto simp: deleteMessage_def)
  have "chat_readable x" if "?p x = Inr False" for x
    using that isMessageToDelete_unreadable [of x JUndefined JUndefined] by auto
  with user bot show "list_all chat_readable (userMessages s @ botMessages s)"
    by (auto simp: list_all_iff)
next
  assume r: "list_all chat_readable (userMessages s @ botMessages s)"
  show "\<forall>chatId mid. \<exists>b. fst (deleteMessage chatId mid s) = Inr b"
  proof (intro allI)
    fix chatId mid
    from r have "find_js (isMessageToDelete chatId mid) (userMessages s) =
        Inr (find (is_match chatId mid) (userMessages s))"
      and "find_js (isMessageToDelete chatId mid) (botMessages s) =
        Inr (find (is_match chatId mid) (botMessages s))"
      by (simp_all add: find_js_readable)
    then show "\<exists>b. fst (deleteMessage chatId mid s) = Inr b"
      by (cases "find (is_match chatId mid) (userMessages s)";
          cases "find (is_match chatId mid) (botMessages s)")
         (auto simp: deleteMessage_def)
  qed
qed

text \<open>
  Claim C10, amended. \<open>deleteMessage\<close> returns a boolean for all arguments exactly when
  every stored record's payload is neither \<open>undefined\<close> nor \<open>null\<close> and has a \<open>chat\<close>
  that is neither; in particular it does when every payload contains a chat object
  with an \<open>id\<close> field. The \<open>id\<close> field itself is not needed: a missing \<open>id\<close> reads as
  \<open>undefined\<close>.
\<close>
theorem deleteMessage_total_iff:
  "((\<forall>chatId mid. \<exists>b. fst (deleteMessage chatId mid s) = Inr b) =
      list_all chat_readable (userMessages s @ botMessages s)) \<and>
   (list_all has_chat_with_id (userMessages s @ botMessages s) \<longrightarrow>
      (\<forall>chatId mid. \<exists>b. fst (deleteMessage chatId mid s) = Inr b))"
proof -
  have "list_all chat_readable xs" if "list_all has_chat_with_id xs" for xs
    using that by (auto simp: list_all_iff has_chat_with_id_readable)
  then show ?thesis
    using deleteMessage_total_readable [of s] by blast
qed

theorem deleteMessage_total_iff_witness:
  "list_all has_chat_with_id (userMessages tie_store @ botMessages tie_store) \<and>
   list_all chat_readable (userMessages tie_store @ botMessages tie_store) \<and>
   (\<forall>chatId mid. \<exists>b. fst (deleteMessage chatId mid tie_store) = Inr b)"
proof -
  have "list_all has_chat_with_id (userMessages tie_store @ botMessages tie_store)"
    by (simp add: tie_store_def tie_user_def tie_bot_def has_chat_with_id_def fmlookup_of_list)
  with deleteMessage_total_iff [of tie_store] show ?thesis
    by blast
qed

text \<open>
  A payload whose \<open>chat\<close> has no \<open>id\<close>: the log is not empty, the record is examined,
  and \<open>deleteMessage\<close> returns \<open>false\<close> without throwing.
\<close>

theorem deleteMessage_chat_without_id:
  "botMessages (run chat_without_id_events (constructor None)) \<noteq> [] \<and>
   \<not> list_all has_chat_with_id
       (userMessages (run chat_without_id_events (constructor None)) @
        botMessages (run chat_without_id_events (constructor None))) \<and>
   deleteMessage (JNum 1) (JNum 1) (run chat_without_id_events (constructor None)) =
     (Inr False, run chat_without_id_events (constructor None))"
  by (simp add: chat_without_id_events_def constructor_def addBotMessage_def
      has_chat_with_id_def deleteMessage_def isMessageToDelete_def fmlookup_of_list)

lemma filter_single_find: "filter q xs = [x] \<Longrightarrow> find q xs = Some x"
  by (simp add: find_filter)

lemma filter_empty_find: "filter q xs = [] \<Longrightarrow> find q xs = None"
  by (simp add: find_filter)

lemma filter_single_removed:
  assumes "filter q xs = [x]"
  shows "filter q (filter (\<lambda>y. f y \<noteq> f x) xs) = []"
proof -
  have "filter q (filter (\<lambda>y. f y \<noteq> f x) xs) = filter (\<lambda>y. f y \<noteq> f x) (filter q xs)"
    by (simp add: conj_commute)
  with assms show ?thesis by simp
qed

text \<open>
  Claim C1, amended. \<open>deleteMessage\<close> searches the user log before the bot log. In a
  store whose payloads all have a \<open>chat\<close>, with exactly one matching record \<open>u\<close> in the
  user log and exactly one matching record \<open>b\<close> in the bot log, the first call removes
  \<open>u\<close> (the records of the user log with its \<open>updateId\<close>), keeps \<open>b\<close> and returns
  \<open>true\<close>; the second call removes \<open>b\<close> and returns \<open>true\<close>; the third call returns
  \<open>false\<close> and changes nothing.
\<close>
theorem deleteMessage_user_log_first:
  assumes readable: "list_all chat_readable (userMessages s @ botMessages s)"
    and user: "filter (is_match chatId mid) (userMessages s) = [u]"
    and bot: "filter (is_match chatId mid) (botMessages s) = [b]"
  shows "let s1 = removeUserMessage (JNum (updateId u)) s;
             s2 = removeBotMessage (JNum (updateId b)) s1
         in deleteMessage chatId mid s = (Inr True, s1) \<and>
            u \<notin> set (userMessages s1) \<and> botMessages s1 = botMessages s \<and>
            b \<in> set (botMessages s1) \<and>
            deleteMessage chatId mid s1 = (Inr True, s2) \<and>
            b \<notin> set (botMessages s2) \<and> userMessages s2 = userMessages s1 \<and>
            deleteMessage chatId mid s2 = (Inr False, s2)"
proof -
  let ?p = "isMessageToDelete chatId mid"
  let ?q = "is_match chatId mid"
  let ?us1 = "filter (\<lambda>y. updateId y \<noteq> updateId u) (userMessages s)"
  let ?bs2 = "filter (\<lambda>y. updateId y \<noteq> updateId b) (botMessages s)"
  let ?s1 = "removeUserMessage (JNum (updateId u)) s"
  let ?s2 = "removeBotMessage (JNum (updateId b)) ?s1"
  have s1: "userMessages ?s1 = ?us1" "botMessages ?s1 = botMessages s"
    by (simp_all add: removeUserMessage_def)
  have s2: "userMessages ?s2 = ?us1" "botMessages ?s2 = ?bs2"
    by (simp_all add: removeUserMessage_def removeBotMessage_def)
  from readable have ru: "list_all chat_readable (userMessages s)"
    and rb: "list_all chat_readable (botMessages s)"
    and ru1: "list_all chat_readable ?us1"
    and rb2: "list_all chat_readable ?bs2"
    by (simp_all add: list_all_iff)
  have fu: "find_js ?p (userMessages s) = Inr (Some u)"
    using ru user by (simp add: find_js_readable filter_single_find)
  have fu1: "find_js ?p ?us1 = Inr None"
    using ru1 filter_single_removed [OF user, of updateId]
    by (simp add: find_js_readable filter_empty_find)
  have fb: "find_js ?p (botMessages s) = Inr (Some b)"
    using rb bot by (simp add: find_js_readable filter_single_find)
  have fb2: "find_js ?p ?bs2 = Inr None"
    using rb2 filter_single_removed [OF bot, of updateId]
    by (simp add: find_js_readable filter_empty_find)
  have d1: "deleteMessage chatId mid s = (Inr True, ?s1)"
    by (simp add: deleteMessage_def fu)
  have d2: "deleteMessage chatId mid ?s1 = (Inr True, ?s2)"
    by (simp add: deleteMessage_def s1 fu1 fb)
  have d3: "deleteMessage chatId mid ?s2 = (Inr False, ?s2)"
    by (simp add: deleteMessage_def s2 fu1 fb2)
  from bot have "b \<in> set (filter ?q (botMessages s))" by simp
  then have bin: "b \<in> set (botMessages s)" by simp
  from d1 d2 d3 s1 s2 bin show ?thesis
    by (simp add: Let_def)
qed

theorem deleteMessage_user_log_first_witness:
  "list_all chat_readable (userMessages tie_store @ botMessages tie_store) \<and>
   filter (is_match (JNum 5) (JNum 1)) (userMessages tie_store) = [tie_user] \<and>
   filter (is_match (JNum 5) (JNum 1)) (botMessages tie_store) = [tie_bot] \<and>
   deleteMessage (JNum 5) (JNum 1) tie_store =
     (Inr True, tie_store \<lparr> userMessages := [] \<rparr>) \<and>
   deleteMessage (JNum 5) (JNum 1) (tie_store \<lparr> userMessages := [] \<rparr>) =
     (Inr True, tie_store \<lparr> userMessages := [], botMessages := [] \<rparr>) \<and>
   deleteMessage (JNum 5) (JNum 1) (tie_store \<lparr> userMessages := [], botMessages := [] \<rparr>) =
     (Inr False, tie_store \<lparr> userMessages := [], botMessages := [] \<rparr>)"
proof -
  have r: "list_all chat_readable (userMessages tie_store @ botMessages tie_store)"
    by (simp add: tie_store_def tie_user_def tie_bot_def chat_readable_def fmlookup_of_list)
  have u: "filter (is_match (JNum 5) (JNum 1)) (userMessages tie_store) = [tie_user]"
    by (simp add: tie_store_def tie_user_def is_match_def isMessageToDelete_def
        fmlookup_of_list)
  have b: "filter (is_match (JNum 5) (JNum 1)) (botMessages tie_store) = [tie_bot]"
    by (simp add: tie_store_def tie_bot_def is_match_def isMessageToDelete_def
        fmlookup_of_list)
  have s1: "removeUserMessage (JNum (updateId tie_user)) tie_store =
      tie_store \<lparr> userMessages := [] \<rparr>"
    by (simp add: removeUserMessage_def tie_store_def tie_user_def)
  have s2: "removeBotMessage (JNum (updateId tie_bot)) (tie_store \<lparr> userMessages := [] \<rparr>) =
      tie_store \<lparr> userMessages := [], botMessages := [] \<rparr>"
    by (simp add: removeBotMessage_def tie_store_def tie_bot_def)
  from deleteMessage_user_log_first [OF r u b] r u b show ?thesis
    by (simp add: Let_def s1 s2)
qed

text \<open>
  With a matching record in each log, the first call removes the user-side record and
  the bot-side record stays.
\<close>

theorem deleteMessage_keeps_bot_record:
  "deleteMessage (JNum 5) (JNum 1) tie_store =
     (Inr True, tie_store \<lparr> userMessages := [] \<rparr>) \<and>
   userMessages (snd (deleteMessage (JNum 5) (JNum 1) tie_store)) = [] \<and>
   botMessages (snd (deleteMessage (JNum 5) (JNum 1) tie_store)) = [tie_bot]"
  by (simp add: tie_store_def tie_user_def tie_bot_def deleteMessage_def
      isMessageToDelete_def removeUserMessage_def fmlookup_of_list)


section \<open>History\<close>

text \<open>
  No stored record has a property \<open>date\<close>, so every sort key is \<open>undefined\<close>, the
  comparator answers 0 on every pair, and the stable sort returns its input.
\<close>

lemma insert_stable_equal_keys:
  "(\<And>y. y \<in> set ys \<Longrightarrow> cmp x y = Some 0) \<Longrightarrow> insert_stable cmp x ys = Some (x # ys)"
  by (cases ys) simp_all

lemma sort_stable_equal_keys:
  "(\<And>x y. x \<in> set xs \<Longrightarrow> y \<in> set xs \<Longrightarrow> cmp x y = Some 0) \<Longrightarrow>
     sort_stable cmp xs = Some xs"
  by (induction xs) (simp_all add: insert_stable_equal_keys)

lemma getUpdateDate_undefined: "getUpdateDate u = JUndefined"
  by (simp add: getUpdateDate_def prop_update_def)

lemma sortBy_getUpdateDate: "sortBy getUpdateDate xs = Some xs"
  unfolding sortBy_def
  by (rule sort_stable_equal_keys) (simp add: sortBy_comparator_def getUpdateDate_undefined)

lemma getUpdatesHistory_insertion_order:
  "getUpdatesHistory token s =
     Some (filter (\<lambda>u. botToken u = token) (botMessages s @ userMessages s))"
proof -
  have "isOwnUpdate token = (\<lambda>u. botToken u = token)"
    by (auto simp: isOwnUpdate_def prop_update_def)
  then show ?thesis
    by (simp add: getUpdatesHistory_def sortBy_getUpdateDate)
qed

text \<open>
  Claim C2. After a bot message whose payload is dated 2 and a user message whose
  payload is dated 1, both for the bot \<open>t\<close>, the history of \<open>t\<close> is the bot record
  followed by the user record: the payload dates of the result are 2, then 1.
\<close>
theorem getUpdatesHistory_not_by_date:
  "getUpdatesHistory (JStr ''t'') (run history_events (constructor None)) =
     Some (botMessages (run history_events (constructor None)) @
           userMessages (run history_events (constructor None))) \<and>
   map payload_date (botMessages (run history_events (constructor None)) @
                     userMessages (run history_events (constructor None))) =
     [Inr (JNum 2), Inr (JNum 1)]"
proof -
  let ?s = "run history_events (constructor None)"
  let ?b = "\<lparr> time = 10, botToken = JStr ''t'',
       message = JObj (fmap_of_list [(''date'', JNum 2), (''text'', JStr ''pong'')]),
       updateId = 1, messageId = 1, isRead = False \<rparr>"
  let ?u = "\<lparr> time = 20, botToken = JStr ''t'',
       message = JObj (fmap_of_list
         [(''botToken'', JStr ''t''), (''date'', JNum 1), (''text'', JStr ''ping'')]),
       updateId = 2, messageId = 2, isRead = False \<rparr>"
  have bot: "botMessages ?s = [?b]"
    by (simp add: history_events_def constructor_def addBotMessage_def addUserMessage_def
        fmlookup_of_list)
  have user: "userMessages ?s = [?u]"
    by (simp add: history_events_def constructor_def addBotMessage_def addUserMessage_def
        fmlookup_of_list)
  have h: "getUpdatesHistory (JStr ''t'') ?s = Some (botMessages ?s @ userMessages ?s)"
    unfolding getUpdatesHistory_insertion_order bot user by simp
  have d: "map payload_date (botMessages ?s @ userMessages ?s) = [Inr (JNum 2), Inr (JNum 1)]"
    unfolding bot user by (simp add: payload_date_def fmlookup_of_list)
  from h d show ?thesis by (rule conjI)
qed

section \<open>The daemon\<close>


lemma cleanUp_storeTimeout: "storeTimeout (cleanUp clock s) = storeTimeout s"
  by (simp add: cleanUp_def)









section \<open>The long poll\<close>

lemma timeout_at_nested:
  assumes "called \<le> called'"
  shows "timeout_at called ms (timeout_at called' ms p) = timeout_at called ms p"
proof (cases p)
  case Pending
  with assms show ?thesis by (simp add: timeout_at_def)
next
  case (Settled t r)
  with assms show ?thesis by (simp add: timeout_at_def)
qed

lemma getUpdates_long_poll_spec:
  "getUpdates c called script =
     map_option (timeout_at called (this_timeout c))
       (long_poll_spec (this_interval c) called script)"
proof (induction script arbitrary: called)
  case Nil
  show ?case by simp
next
  case (Cons q script)
  obtain latency r where q: "q = (latency, r)"
    by (cases q)
  show ?case
  proof (cases r)
    case Rejected
    with q show ?thesis by simp
  next
    case (Fulfilled update)
    let ?called' = "called + int latency + delay_ms (this_interval c)"
    have le: "called \<le> ?called'"
      by (simp add: delay_ms_def)
    have nested: "map_option (timeout_at called (this_timeout c))
        (map_option (timeout_at ?called' (this_timeout c)) x) =
        map_option (timeout_at called (this_timeout c)) x" for x
      by (cases x) (simp_all add: timeout_at_nested [OF le])
    show ?thesis
    proof (cases "has_result update")
      case None
      with q Fulfilled show ?thesis by simp
    next
      case (Some h)
      show ?thesis
      proof (cases h)
        case (Inl e)
        with q Fulfilled Some show ?thesis by simp
      next
        case (Inr found)
        with q Fulfilled Some Cons.IH [of ?called'] nested show ?thesis
          by simp
      qed
    qed
  qed
qed

lemma long_poll_spec_no_timeout:
  "long_poll_spec interval called script = Some (Settled t r) \<Longrightarrow> r \<noteq> Inl (TimeoutError n)"
proof (induction script arbitrary: called)
  case Nil
  then show ?case by simp
next
  case (Cons q script)
  obtain latency rep where q: "q = (latency, rep)"
    by (cases q)
  show ?case
  proof (cases rep)
    case Rejected
    with q Cons.prems show ?thesis by auto
  next
    case (Fulfilled update)
    with q Cons show ?thesis
      by (auto split: option.splits sum.splits if_splits)
  qed
qed

text \<open>
  Claim C5, amended. The constructor replaces a missing or zero \<open>timeout\<close> by 1000 and
  a missing or zero \<open>interval\<close> by 100. \<open>getUpdates\<close>, with its nested timeouts, is the
  retrieval of the specification under a single deadline, \<open>timeout\<close> after the call:
  it ends as the retrieval does (with the first non-empty result when its reply
  arrives, querying again \<open>interval\<close> after each empty reply, or with the error of a
  rejected request or of a reply whose \<open>result\<close> cannot be read) when that happens
  before the deadline; otherwise it fails at the deadline with the \<open>TimeoutError\<close>
  carrying the client's \<open>timeout\<close>. So it fails with a \<open>TimeoutError\<close> exactly when
  the retrieval has not ended, with a result or with an error, before the deadline.
\<close>
theorem getUpdates_deadline:
  "(TelegramClient url token opt_timeout opt_interval = Inr c \<longrightarrow>
      this_timeout c = (case opt_timeout of None \<Rightarrow> 1000 | Some n \<Rightarrow> if n = 0 then 1000 else n) \<and>
      this_interval c = (case opt_interval of None \<Rightarrow> 100 | Some n \<Rightarrow> if n = 0 then 100 else n)) \<and>
   (long_poll_spec (this_interval c) called script = Some p \<longrightarrow>
      getUpdates c called script =
        Some (if settles_before p (called + delay_ms (this_timeout c)) then p
              else Settled (called + delay_ms (this_timeout c))
                     (Inl (TimeoutError (this_timeout c)))) \<and>
      ((\<exists>t n. getUpdates c called script = Some (Settled t (Inl (TimeoutError n)))) =
         (\<not> settles_before p (called + delay_ms (this_timeout c)))))"
proof -
  have cfg: "this_timeout c = (case opt_timeout of None \<Rightarrow> 1000 | Some n \<Rightarrow> if n = 0 then 1000 else n) \<and>
      this_interval c = (case opt_interval of None \<Rightarrow> 100 | Some n \<Rightarrow> if n = 0 then 100 else n)"
    if "TelegramClient url token opt_timeout opt_interval = Inr c"
    using that by (auto simp: TelegramClient_def split: if_splits)
  have poll: "getUpdates c called script =
        Some (if settles_before p (called + delay_ms (this_timeout c)) then p
              else Settled (called + delay_ms (this_timeout c))
                     (Inl (TimeoutError (this_timeout c)))) \<and>
      ((\<exists>t n. getUpdates c called script = Some (Settled t (Inl (TimeoutError n)))) =
         (\<not> settles_before p (called + delay_ms (this_timeout c))))"
    if p: "long_poll_spec (this_interval c) called script = Some p"
  proof -
    let ?D = "called + delay_ms (this_timeout c)"
    have g: "getUpdates c called script =
        Some (if settles_before p ?D then p
              else Settled ?D (Inl (TimeoutError (this_timeout c))))"
      by (simp add: getUpdates_long_poll_spec p timeout_at_def)
    have "(\<exists>t n. getUpdates c called script = Some (Settled t (Inl (TimeoutError n)))) =
        (\<not> settles_before p ?D)"
    proof (cases "settles_before p ?D")
      case True
      then obtain t r where pr: "p = Settled t r"
        by (cases p) simp_all
      with p have "r \<noteq> Inl (TimeoutError n)" for n
        using long_poll_spec_no_timeout by blast
      with True pr g show ?thesis by simp
    next
      case False
      with g show ?thesis by simp
    qed
    with g show ?thesis by simp
  qed
  from cfg poll show ?thesis by blast
qed

theorem getUpdates_deadline_witness:
  "TelegramClient (JStr ''http://localhost:9000'') (JStr ''t'') None None = Inr default_client \<and>
   long_poll_spec (this_interval default_client) 0 third_reply_script =
     Some (Settled 260 (Inr one_update_reply)) \<and>
   this_timeout default_client = 1000 \<and> this_interval default_client = 100 \<and>
   getUpdates default_client 0 third_reply_script = Some (Settled 260 (Inr one_update_reply))"
proof -
  have c: "TelegramClient (JStr ''http://localhost:9000'') (JStr ''t'') None None =
      Inr default_client"
    by (simp add: TelegramClient_def default_client_def)
  have e: "has_result empty_reply = Some (Inr False)"
    by (simp add: has_result_def empty_reply_def fmlookup_of_list)
  have o: "has_result one_update_reply = Some (Inr True)"
    by (simp add: has_result_def one_update_reply_def fmlookup_of_list)
  have p: "long_poll_spec (this_interval default_client) 0 third_reply_script =
      Some (Settled 260 (Inr one_update_reply))"
    by (simp add: third_reply_script_def default_client_def delay_ms_def e o)
  have t: "this_timeout default_client = 1000" "this_interval default_client = 100"
    by (simp_all add: default_client_def)
  from getUpdates_deadline [of "JStr ''http://localhost:9000''" "JStr ''t''" None None
      default_client 0 third_reply_script "Settled 260 (Inr one_update_reply)"] c p t
  show ?thesis
    by (simp add: delay_ms_def)
qed

text \<open>
  With a timeout of 200 ms and an interval of 50 ms, against replies that stay empty:
  the failure comes at 200 ms and carries 200.
\<close>

lemma getUpdates_timeout_200:
  assumes "TelegramClient url token (Some 200) (Some 50) = Inr c"
  shows "getUpdates c 0 empty_script = Some (Settled 200 (Inl (TimeoutError 200)))"
proof -
  from assms have c: "this_timeout c = 200" "this_interval c = 50"
    by (auto simp: TelegramClient_def split: if_splits)
  have e: "has_result empty_reply = Some (Inr False)"
    by (simp add: has_result_def empty_reply_def fmlookup_of_list)
  have "long_poll_spec 50 0 empty_script = Some Pending"
    by (simp add: empty_script_def e)
  then show ?thesis
    by (simp add: getUpdates_long_poll_spec c timeout_at_def delay_ms_def)
qed

text \<open>
  A client configured with a timeout of 0 works with 1000: against replies that stay
  empty it fails at 1000 ms with the \<open>TimeoutError\<close> carrying 1000. And a request
  rejected after 10 ms fails the retrieval at once, with the error of the request:
  no non-empty result was obtained, yet the failure is not the \<open>TimeoutError\<close>.
\<close>

theorem getUpdates_other_failures:
  "TelegramClient (JStr ''http://localhost:9000'') (JStr ''t'') (Some 0) None =
     Inr default_client \<and>
   getUpdates default_client 0 empty_script = Some (Settled 1000 (Inl (TimeoutError 1000))) \<and>
   getUpdates default_client 0 rejected_script = Some (Settled 10 (Inl RequestError))"
proof -
  have e: "has_result empty_reply = Some (Inr False)"
    by (simp add: has_result_def empty_reply_def fmlookup_of_list)
  have "long_poll_spec 100 0 empty_script = Some Pending"
    by (simp add: empty_script_def e)
  then have "getUpdates default_client 0 empty_script =
      Some (Settled 1000 (Inl (TimeoutError 1000)))"
    by (simp add: getUpdates_long_poll_spec default_client_def timeout_at_def delay_ms_def)
  moreover have "getUpdates default_client 0 rejected_script = Some (Settled 10 (Inl RequestError))"
    by (simp add: rejected_script_def default_client_def timeout_at_def delay_ms_def)
  moreover have "TelegramClient (JStr ''http://localhost:9000'') (JStr ''t'') (Some 0) None =
      Inr default_client"
    by (simp add: TelegramClient_def default_client_def)
  ultimately show ?thesis by simp
qed

end
